theory Spec2Isabelle
  imports Complex_Main "HOL-Library.AList" "HOL-Library.Char_ord"
    "HOL-Library.List_Lexorder" "HOL-Library.Product_Lexorder"
begin

section \<open>Numeric cells and the pandas reductions\<close>

text \<open>
  A numeric cell of a DataFrame is a float that may be missing: \<open>None\<close> is NaN.
  Arithmetic on present values is the arithmetic of the reals (rounding is not modelled).
  The reductions of pandas skip NaN: \<open>sum\<close> of no value is 0, \<open>mean\<close> of no value is NaN,
  and \<open>std\<close> (sample standard deviation, \<open>ddof = 1\<close>) of fewer than two values is NaN.
\<close>

type_synonym cell = "real option"

datatype error = KeyError | ValueError | IndexError

definition present :: "cell list \<Rightarrow> real list" where
  "present cs = List.map_filter (\<lambda>c. c) cs"

definition nansum :: "cell list \<Rightarrow> real" where
  "nansum cs = sum_list (present cs)"

definition nanmean :: "cell list \<Rightarrow> cell" where
  "nanmean cs =
     (let xs = present cs
      in if xs = [] then None else Some (sum_list xs / real (length xs)))"

definition nanstd :: "cell list \<Rightarrow> cell" where
  "nanstd cs =
     (let xs = present cs; n = length xs
      in if n < 2 then None
         else let avg = sum_list xs / real n
              in Some (sqrt (sum_list (map (\<lambda>x. (avg - x)\<^sup>2) xs) / real (n - 1))))"

text \<open>
  Element-wise float division and comparison as numpy performs them: a division by zero
  raises nothing, it yields NaN (0/0) or an infinity, and every comparison with NaN is
  false.
\<close>

datatype npfloat = Fin real | PosInf | NegInf | NaN

fun np_div :: "cell \<Rightarrow> cell \<Rightarrow> npfloat" where
  "np_div (Some a) (Some b) =
     (if b = 0 then (if a = 0 then NaN else if 0 < a then PosInf else NegInf)
      else Fin (a / b))"
| "np_div _ _ = NaN"

fun np_sub :: "cell \<Rightarrow> cell \<Rightarrow> cell" where
  "np_sub (Some a) (Some b) = Some (a - b)"
| "np_sub _ _ = None"

fun np_gt :: "npfloat \<Rightarrow> real \<Rightarrow> bool" where
  "np_gt (Fin x) c = (c < x)"
| "np_gt PosInf c = True"
| "np_gt NegInf c = False"
| "np_gt NaN c = False"

section \<open>National anomaly detector (analyze_fraud_spikes)\<close>

text \<open>
  A raw demographic row as the detector reads it: the date after \<open>to_datetime\<close> with
  \<open>errors='coerce'\<close> (\<open>None\<close> is NaT; a day is its ordinal number) and the two counters
  \<open>demo_age_5_17\<close> and \<open>demo_age_17_\<close>.
\<close>

type_synonym date = int
type_synonym raw_demo = "date option \<times> cell \<times> cell"

text \<open>
  \<open>groupby('date')[[...]].sum().sum(axis=1).reset_index()\<close>: one row per date present
  (NaT rows are dropped by \<open>groupby\<close>), in ascending date order, holding the sum of both
  counters.
\<close>

definition daily_ts :: "raw_demo list \<Rightarrow> (date \<times> real) list" where
  "daily_ts raw_df =
     map (\<lambda>d. (d, nansum [a. (d', a, b) \<leftarrow> raw_df, d' = Some d]
                 + nansum [b. (d', a, b) \<leftarrow> raw_df, d' = Some d]))
         (sort (remdups (List.map_filter fst raw_df)))"

definition z_scores :: "(date \<times> real) list \<Rightarrow> (date \<times> real \<times> npfloat) list" where
  "z_scores ts =
     (let total_vol = map (\<lambda>r. Some (snd r)) ts;
          mean_vol = nanmean total_vol;
          std_vol = nanstd total_vol
      in map (\<lambda>(d, v). (d, v, np_div (np_sub (Some v) mean_vol) std_vol)) ts)"

definition detect_anomalies :: "(date \<times> real) list \<Rightarrow> (date \<times> real \<times> npfloat) list" where
  "detect_anomalies ts = filter (\<lambda>(d, v, z). np_gt z 3) (z_scores ts)"

text \<open>
  The function takes the frames read from the files; with no readable file it prints a
  message and returns (\<open>None\<close>). Otherwise the value here is the table \<open>anomalies\<close> that
  it counts and plots.
\<close>

definition analyze_fraud_spikes :: "raw_demo list list \<Rightarrow> (date \<times> real \<times> npfloat) list option" where
  "analyze_fraud_spikes dfs =
     (if dfs = [] then None
      else Some (detect_anomalies (daily_ts (concat dfs))))"

text \<open>
  A ten-day series for the scenario of the spec: nine days at 100 and one day at 10,000
  (one raw row per day, all in \<open>demo_age_17_\<close>).
\<close>

definition spike_rows :: "raw_demo list" where
  "spike_rows =
     [(Some 1, Some 0, Some 100), (Some 2, Some 0, Some 100), (Some 3, Some 0, Some 100),
      (Some 4, Some 0, Some 100), (Some 5, Some 0, Some 100), (Some 6, Some 0, Some 100),
      (Some 7, Some 0, Some 100), (Some 8, Some 0, Some 100), (Some 9, Some 0, Some 100),
      (Some 10, Some 0, Some 10000)]"

section \<open>DataFrames keyed by pincode\<close>

text \<open>
  Every table of the pipeline is keyed by \<open>(state, district, pincode)\<close>. A frame holds the
  key of each row and its numeric columns by name, in column order; a column is the list
  of its cells in row order. Columns that the modelled functions never read (date, month)
  are left out. A frame without rows is what pandas calls \<open>empty\<close>; \<open>pd.DataFrame()\<close> is
  the frame with no rows and no columns.

  A cleaned input table may miss key fields (NaN); an aggregated table never does.
\<close>

type_synonym pkey = "string \<times> string \<times> int"
type_synonym rawkey = "string option \<times> string option \<times> int option"

record 'k frame =
  index_keys :: "'k list"
  data :: "(string \<times> cell list) list"

definition empty_frame :: "'k frame" where
  "empty_frame = \<lparr>index_keys = [], data = []\<rparr>"

definition is_empty :: "'k frame \<Rightarrow> bool" where
  "is_empty df \<longleftrightarrow> index_keys df = []"

definition key_cols :: "string list" where
  "key_cols = [''state'', ''district'', ''pincode'']"

text \<open>\<open>df[c]\<close> raises KeyError for a missing column.\<close>

definition column :: "'k frame \<Rightarrow> string \<Rightarrow> error + cell list" where
  "column df c = (case map_of (data df) c of None \<Rightarrow> Inl KeyError | Some xs \<Rightarrow> Inr xs)"

fun select :: "'k frame \<Rightarrow> string list \<Rightarrow> error + cell list list" where
  "select df [] = Inr []"
| "select df (c # cs) =
     (case column df c of
        Inl e \<Rightarrow> Inl e
      | Inr xs \<Rightarrow> (case select df cs of Inl e \<Rightarrow> Inl e | Inr xss \<Rightarrow> Inr (xs # xss)))"

text \<open>\<open>df[c] = xs\<close> replaces the column where it stands, or appends it.\<close>

definition set_column :: "'k frame \<Rightarrow> string \<Rightarrow> cell list \<Rightarrow> 'k frame" where
  "set_column df c xs = df\<lparr>data := AList.update c xs (data df)\<rparr>"

text \<open>\<open>.sum(axis=1)\<close> over the selected columns: row \<open>i\<close> sums its present cells.\<close>

definition row_nansum :: "nat \<Rightarrow> cell list list \<Rightarrow> real list" where
  "row_nansum n xss = map (\<lambda>i. nansum (map (\<lambda>xs. xs ! i) xss)) [0..<n]"

text \<open>\<open>'sum' in c\<close>: the substring test of Python.\<close>

fun is_prefix :: "string \<Rightarrow> string \<Rightarrow> bool" where
  "is_prefix [] ys = True"
| "is_prefix (x # xs) [] = False"
| "is_prefix (x # xs) (y # ys) = (x = y \<and> is_prefix xs ys)"

fun contains :: "string \<Rightarrow> string \<Rightarrow> bool" where
  "contains p [] = is_prefix p []"
| "contains p (c # cs) = (is_prefix p (c # cs) \<or> contains p cs)"

section \<open>Pincode feature builder (process_domain_features)\<close>

text \<open>
  \<open>groupby(['state', 'district', 'pincode'])\<close> drops the rows with a missing key field and
  orders the groups by key.
\<close>

definition valid_key :: "rawkey \<Rightarrow> pkey option" where
  "valid_key k = (case k of (Some s, Some d, Some p) \<Rightarrow> Some (s, d, p) | _ \<Rightarrow> None)"

definition group_keys :: "rawkey list \<Rightarrow> pkey list" where
  "group_keys ks = sort (remdups (List.map_filter valid_key ks))"

definition group_cells :: "rawkey list \<Rightarrow> cell list \<Rightarrow> pkey \<Rightarrow> cell list" where
  "group_cells ks xs g = [x. (k, x) \<leftarrow> zip ks xs, valid_key k = Some g]"

definition stability :: "real \<Rightarrow> real \<Rightarrow> real" where
  "stability total_vol total_std =
     (if 0 < total_vol then 1 / ((total_std / (total_vol + 1)) + 0.1) else 0)"

definition process_domain_features ::
  "rawkey frame \<Rightarrow> string \<Rightarrow> string list \<Rightarrow> error + pkey frame" where
  "process_domain_features df prefix val_cols =
     (if is_empty df then Inr empty_frame
      else case select df val_cols of
        Inl e \<Rightarrow> Inl e
      | Inr xss \<Rightarrow>
         (let ks = index_keys df;
              gs = group_keys ks;
              agg = concat (map (\<lambda>xs. [map (\<lambda>g. Some (nansum (group_cells ks xs g))) gs,
                                         map (\<lambda>g. nanstd (group_cells ks xs g)) gs]) xss);
              names = concat (map (\<lambda>c. [c @ ''_sum'', c @ ''_std'']) val_cols);
              stats = \<lparr>index_keys = gs, data = zip names agg\<rparr>;
              sum_cols = filter (contains ''sum'') (key_cols @ map fst (data stats))
          in case select stats sum_cols of
               Inl e \<Rightarrow> Inl e
             | Inr sum_vals \<Rightarrow>
                (let total_vol = row_nansum (length gs) sum_vals;
                     stats1 = set_column stats (prefix @ ''_total_vol'') (map Some total_vol);
                     std_cols = filter (contains ''std'') (key_cols @ map fst (data stats1))
                 in case select stats1 std_cols of
                      Inl e \<Rightarrow> Inl e
                    | Inr std_vals \<Rightarrow>
                       (let total_std = row_nansum (length gs) std_vals
                        in Inr (set_column stats1 (prefix @ ''_stability'')
                                  (map Some (map2 stability total_vol total_std)))))))"

text \<open>The three calls of \<open>load_and_engineer_data\<close>.\<close>

definition enrol_cols :: "string list" where
  "enrol_cols = [''enrol_child'', ''enrol_adult'']"

definition bio_cols :: "string list" where
  "bio_cols = [''bio_child'', ''bio_adult'']"

definition demo_cols :: "string list" where
  "demo_cols = [''demo_child'', ''demo_adult'']"

definition domain_calls :: "(string \<times> string list) list" where
  "domain_calls = [(''enrol'', enrol_cols), (''bio'', bio_cols), (''demo'', demo_cols)]"

section \<open>Domain merger (load_and_engineer_data)\<close>

text \<open>
  \<open>pd.merge(left, right, on=keys, how='outer')\<close>: the keys of the result are the union
  of both key lists in ascending order; a key held by \<open>m\<close> left and \<open>n\<close> right rows gives
  \<open>m * n\<close> rows (left row major), a key missing on one side gives the other side's rows
  with NaN in the missing side's columns. The columns are the left ones followed by the
  right ones; a column name used on both sides gets the suffix \<open>_x\<close> on the left and \<open>_y\<close>
  on the right.
\<close>

definition vals_at :: "'k list \<Rightarrow> cell list \<Rightarrow> 'k \<Rightarrow> cell list" where
  "vals_at ks xs k = [x. (k', x) \<leftarrow> zip ks xs, k' = k]"

definition pd_merge :: "pkey frame \<Rightarrow> pkey frame \<Rightarrow> pkey frame" where
  "pd_merge left right =
     (let kl = index_keys left; kr = index_keys right;
          ks = sort (remdups (kl @ kr));
          nl = count_list kl; nr = count_list kr;
          lnames = map fst (data left); rnames = map fst (data right);
          lpart = (\<lambda>xs k. if nl k = 0 then replicate (nr k) None
                          else concat (map (replicate (max 1 (nr k))) (vals_at kl xs k)));
          rpart = (\<lambda>ys k. if nr k = 0 then replicate (nl k) None
                          else concat (replicate (max 1 (nl k)) (vals_at kr ys k)))
      in \<lparr>index_keys = concat (map (\<lambda>k. replicate (max 1 (nl k) * max 1 (nr k)) k) ks),
          data = map (\<lambda>(c, xs). (if c \<in> set rnames then c @ ''_x'' else c,
                                   concat (map (lpart xs) ks))) (data left)
               @ map (\<lambda>(c, ys). (if c \<in> set lnames then c @ ''_y'' else c,
                                   concat (map (rpart ys) ks))) (data right)\<rparr>)"

definition fillna0 :: "'k frame \<Rightarrow> 'k frame" where
  "fillna0 df =
     df\<lparr>data := map (\<lambda>(c, xs). (c, map (\<lambda>x. case x of None \<Rightarrow> Some 0 | Some v \<Rightarrow> Some v) xs))
                    (data df)\<rparr>"

text \<open>Step 5 of \<open>load_and_engineer_data\<close>, on the three feature tables.\<close>

definition merge_domains :: "pkey frame \<Rightarrow> pkey frame \<Rightarrow> pkey frame \<Rightarrow> pkey frame" where
  "merge_domains feat_enrol feat_bio feat_demo =
     (let master = feat_enrol;
          master = (if is_empty master then feat_bio
                    else if \<not> is_empty feat_bio then pd_merge master feat_bio
                    else master);
          master = (if is_empty master then feat_demo
                    else if \<not> is_empty feat_demo then pd_merge master feat_demo
                    else master)
      in fillna0 master)"

text \<open>
  Steps 4 and 5 of \<open>load_and_engineer_data\<close>, on the three cleaned tables (loading,
  cleaning and the exploratory plots are outside the model).
\<close>

definition load_and_engineer_data ::
  "rawkey frame \<Rightarrow> rawkey frame \<Rightarrow> rawkey frame \<Rightarrow> error + pkey frame" where
  "load_and_engineer_data df_enrol df_bio df_demo =
     (case process_domain_features df_enrol ''enrol'' enrol_cols of
        Inl e \<Rightarrow> Inl e
      | Inr feat_enrol \<Rightarrow>
         (case process_domain_features df_bio ''bio'' bio_cols of
            Inl e \<Rightarrow> Inl e
          | Inr feat_bio \<Rightarrow>
             (case process_domain_features df_demo ''demo'' demo_cols of
                Inl e \<Rightarrow> Inl e
              | Inr feat_demo \<Rightarrow> Inr (merge_domains feat_enrol feat_bio feat_demo))))"

text \<open>
  What the statements about the merger say of a feature table: its keys are ascending
  without repetition (as \<open>groupby\<close> leaves them), its columns have distinct names and as
  many cells as there are rows.
\<close>

definition keyed_table :: "pkey frame \<Rightarrow> bool" where
  "keyed_table df \<longleftrightarrow>
     sorted (index_keys df) \<and> distinct (index_keys df) \<and> distinct (map fst (data df))
     \<and> (\<forall>(c, xs) \<in> set (data df). length xs = length (index_keys df))"

text \<open>
  Two frames hold the same table up to the order of their columns: the same rows in the
  same order, the same column names, and under each name the same cells.
\<close>

definition same_table :: "pkey frame \<Rightarrow> pkey frame \<Rightarrow> bool" where
  "same_table A B \<longleftrightarrow>
     index_keys A = index_keys B \<and> set (map fst (data A)) = set (map fst (data B))
     \<and> (\<forall>c \<in> set (map fst (data A)). map_of (data A) c = map_of (data B) c)"

text \<open>The features of the one-record table \<open>wdf\<close>.\<close>

definition wfeat :: "pkey frame" where
  "wfeat = \<lparr>index_keys = [(''S'', ''D'', 1)],
            data = [(''enrol_child_sum'', [Some 2]), (''enrol_child_std'', [None]),
                    (''enrol_adult_sum'', [Some 3]), (''enrol_adult_std'', [None]),
                    (''enrol_total_vol'', [Some 5]), (''enrol_stability'', [Some 10])]\<rparr>"

text \<open>
  A cleaned enrolment table with a single record: its one pincode has one observation.
\<close>

definition wdf :: "rawkey frame" where
  "wdf = \<lparr>index_keys = [(Some ''S'', Some ''D'', Some 1)],
          data = [(''enrol_child'', [Some 2]), (''enrol_adult'', [Some 3])]\<rparr>"

section \<open>Facts about the reductions\<close>

lemma present_Some [simp]: "present (map Some xs) = xs"
  by (induction xs) (simp_all add: present_def List.map_filter_simps)

lemma present_map_Some_snd [simp]: "present (map (\<lambda>r. Some (f r)) xs) = map f xs"
  by (induction xs) (simp_all add: present_def List.map_filter_simps)

lemma sum_list_const: "(\<forall>x \<in> set xs. x = (c::real)) \<Longrightarrow> sum_list xs = real (length xs) * c"
  by (induction xs) (simp_all add: algebra_simps)

lemma sum_list_sq_le:
  fixes xs :: "real list"
  shows "(sum_list xs)\<^sup>2 \<le> real (length xs) * sum_list (map (\<lambda>x. x\<^sup>2) xs)"
proof (induction xs)
  case Nil
  show ?case by simp
next
  case (Cons a xs)
  let ?n = "real (length xs)" and ?S = "sum_list xs"
  let ?Q = "sum_list (map (\<lambda>x. x\<^sup>2) xs)"
  have q: "0 \<le> ?Q" by (rule sum_list_nonneg) auto
  have cross: "2 * a * ?S \<le> ?n * a\<^sup>2 + ?Q"
  proof (cases "length xs = 0")
    case True
    then show ?thesis by simp
  next
    case False
    then have n: "0 < ?n" by simp
    have "0 \<le> (?n * a - ?S)\<^sup>2" by simp
    then have "2 * (?n * a) * ?S \<le> (?n * a)\<^sup>2 + ?S\<^sup>2"
      by (simp add: power2_diff)
    also have "\<dots> \<le> (?n * a)\<^sup>2 + ?n * ?Q" using Cons.IH by simp
    finally have "?n * (2 * a * ?S) \<le> ?n * (?n * a\<^sup>2 + ?Q)"
      by (simp add: algebra_simps power2_eq_square)
    then show ?thesis using n by (simp only: mult_le_cancel_left_pos)
  qed
  have "(sum_list (a # xs))\<^sup>2 = a\<^sup>2 + 2 * a * ?S + ?S\<^sup>2"
    by (simp add: power2_sum)
  also have "\<dots> \<le> a\<^sup>2 + (?n * a\<^sup>2 + ?Q) + ?n * ?Q"
    using cross Cons.IH by linarith
  also have "\<dots> = real (length (a # xs)) * sum_list (map (\<lambda>x. x\<^sup>2) (a # xs))"
    by (simp add: algebra_simps)
  finally show ?case .
qed

lemma samuelson:
  fixes xs :: "real list"
  assumes x: "x \<in> set xs"
  defines "m \<equiv> sum_list xs / real (length xs)"
  shows "real (length xs) * (m - x)\<^sup>2 \<le> real (length xs - 1) * sum_list (map (\<lambda>y. (m - y)\<^sup>2) xs)"
proof -
  obtain ys zs where split: "xs = ys @ x # zs" using x by (auto dest: split_list)
  let ?r = "ys @ zs"
  let ?n = "real (length xs)"
  have npos: "0 < ?n" using split by simp
  have len: "real (length ?r) = real (length xs - 1)" using split by simp
  have "sum_list (map (\<lambda>y. m - y) xs) = ?n * m - sum_list xs"
    by (induction xs) (simp_all add: algebra_simps)
  also have "\<dots> = 0" using npos by (simp add: m_def)
  finally have zero: "sum_list (map (\<lambda>y. m - y) xs) = 0" .
  then have rest: "sum_list (map (\<lambda>y. m - y) ?r) = - (m - x)"
    by (simp add: split)
  have "(sum_list (map (\<lambda>y. m - y) ?r))\<^sup>2
          \<le> real (length (map (\<lambda>y. m - y) ?r)) * sum_list (map (\<lambda>d. d\<^sup>2) (map (\<lambda>y. m - y) ?r))"
    by (rule sum_list_sq_le)
  then have "(- (m - x))\<^sup>2 \<le> real (length ?r) * sum_list (map (\<lambda>y. (m - y)\<^sup>2) ?r)"
    unfolding rest by (simp only: length_map map_map comp_def)
  then have cs: "(m - x)\<^sup>2 \<le> real (length xs - 1) * sum_list (map (\<lambda>y. (m - y)\<^sup>2) ?r)"
    unfolding len by (simp only: power2_minus)
  have Q: "sum_list (map (\<lambda>y. (m - y)\<^sup>2) xs) = (m - x)\<^sup>2 + sum_list (map (\<lambda>y. (m - y)\<^sup>2) ?r)"
    by (simp add: split)
  have n1: "?n = real (length xs - 1) + 1" using split by simp
  show ?thesis
    unfolding Q using cs by (simp add: n1 algebra_simps)
qed


lemma nanmean_Some [simp]:
  "xs \<noteq> [] \<Longrightarrow> nanmean (map Some xs) = Some (sum_list xs / real (length xs))"
  by (simp add: nanmean_def)

lemma nanstd_Some:
  "2 \<le> length xs \<Longrightarrow> nanstd (map Some xs) =
     Some (sqrt (sum_list (map (\<lambda>x. (sum_list xs / real (length xs) - x)\<^sup>2) xs)
                 / real (length xs - 1)))"
  by (simp add: nanstd_def Let_def)

lemma nanstd_short: "length xs < 2 \<Longrightarrow> nanstd (map Some xs) = None"
  by (simp add: nanstd_def Let_def)

lemma z_not_gt3:
  fixes vs :: "real list"
  assumes n: "length vs \<le> 10" and v: "v \<in> set vs"
  shows "\<not> np_gt (np_div (np_sub (Some v) (nanmean (map Some vs))) (nanstd (map Some vs))) 3"
proof (cases "length vs < 2")
  case True
  then show ?thesis by (simp add: nanstd_short)
next
  case False
  then have n2: "2 \<le> length vs" by simp
  then have ne: "vs \<noteq> []" by auto
  define m where "m = sum_list vs / real (length vs)"
  define Q where "Q = sum_list (map (\<lambda>y. (m - y)\<^sup>2) vs)"
  define k where "k = real (length vs - 1)"
  have kpos: "0 < k" and k9: "k \<le> 9" and nk: "real (length vs) = k + 1"
    using n n2 by (simp_all add: k_def)
  have Qnn: "0 \<le> Q" unfolding Q_def by (rule sum_list_nonneg) auto
  have sam: "(k + 1) * (m - v)\<^sup>2 \<le> k * Q"
    using samuelson [OF v] by (simp add: m_def Q_def k_def nk [unfolded k_def])
  have z: "np_div (np_sub (Some v) (nanmean (map Some vs))) (nanstd (map Some vs))
             = np_div (Some (v - m)) (Some (sqrt (Q / k)))"
    using ne n2 by (simp add: nanstd_Some m_def Q_def k_def)
  show ?thesis
  proof (cases "Q = 0")
    case True
    with sam kpos have "(m - v)\<^sup>2 \<le> 0"
      by (simp add: mult_le_0_iff)
    then have "v - m = 0" by simp
    then show ?thesis unfolding z using True by simp
  next
    case False
    with Qnn kpos have s: "0 < sqrt (Q / k)" by simp
    have "\<not> 3 < (v - m) / sqrt (Q / k)"
    proof
      assume "3 < (v - m) / sqrt (Q / k)"
      with s have gt: "3 * sqrt (Q / k) < v - m" by (simp add: pos_less_divide_eq)
      have "0 \<le> 3 * sqrt (Q / k)" using s by simp
      with gt have "(3 * sqrt (Q / k))\<^sup>2 < (v - m)\<^sup>2"
        by (intro power_strict_mono) simp_all
      moreover have "(3 * sqrt (Q / k))\<^sup>2 = 9 * (Q / k)"
        using Qnn kpos by (simp add: power_mult_distrib)
      ultimately have "9 * (Q / k) < (v - m)\<^sup>2" by simp
      with kpos have "9 * Q < k * (v - m)\<^sup>2"
        by (simp add: pos_divide_less_eq mult.commute)
      moreover have "(v - m)\<^sup>2 = (m - v)\<^sup>2" by (simp add: power2_commute)
      ultimately have a: "9 * Q < k * (m - v)\<^sup>2" by simp
      have dpos: "0 \<le> (m - v)\<^sup>2" by simp
      have "k * (k * (m - v)\<^sup>2) \<le> 9 * (k * (m - v)\<^sup>2)"
        using k9 kpos dpos by (intro mult_right_mono) simp_all
      also have "\<dots> \<le> 9 * ((k + 1) * (m - v)\<^sup>2)"
        using dpos by (simp add: algebra_simps)
      also have "\<dots> \<le> 9 * (k * Q)" using sam by simp
      also have "\<dots> = k * (9 * Q)" by simp
      finally have "k * (m - v)\<^sup>2 \<le> 9 * Q" using kpos by simp
      with a show False by simp
    qed
    moreover have "sqrt (Q / k) \<noteq> 0" using s by (metis less_irrefl)
    ultimately show ?thesis unfolding z by (simp only: np_div.simps np_gt.simps if_False not_False_eq_True)
  qed
qed

lemma detect_anomalies_empty_iff:
  "detect_anomalies ts = [] \<longleftrightarrow>
     (\<forall>r \<in> set ts. \<not> np_gt (np_div (np_sub (Some (snd r)) (nanmean (map Some (map snd ts))))
                                     (nanstd (map Some (map snd ts)))) 3)"
  by (auto simp: detect_anomalies_def z_scores_def Let_def filter_empty_conv comp_def
           split: prod.splits)

lemma few_days_no_anomaly: "length ts \<le> 10 \<Longrightarrow> detect_anomalies ts = []"
proof -
  assume n: "length ts \<le> 10"
  have "\<not> np_gt (np_div (np_sub (Some (snd r)) (nanmean (map Some (map snd ts))))
                          (nanstd (map Some (map snd ts)))) 3" if "r \<in> set ts" for r
    using that n by (intro z_not_gt3) simp_all
  then show ?thesis
    by (simp only: detect_anomalies_empty_iff) blast
qed

lemma constant_no_anomaly:
  assumes "\<forall>r \<in> set ts. snd r = c"
  shows "detect_anomalies ts = []"
proof (cases "length ts < 2")
  case True
  then show ?thesis by (simp add: few_days_no_anomaly)
next
  case False
  then have n2: "2 \<le> length (map snd ts)" and ne: "map snd ts \<noteq> []" by auto
  have all: "\<forall>x \<in> set (map snd ts). x = c" using assms by auto
  have m: "sum_list (map snd ts) / real (length (map snd ts)) = c"
    using sum_list_const [OF all] ne by simp
  have "sum_list (map (\<lambda>x. (c - x)\<^sup>2) (map snd ts)) = 0"
    using assms by (induction ts) simp_all
  then have sd: "nanstd (map Some (map snd ts)) = Some 0"
    using n2 by (simp only: nanstd_Some m) simp
  have mn: "nanmean (map Some (map snd ts)) = Some c"
    using nanmean_Some [OF ne] m by simp
  have "\<not> np_gt (np_div (np_sub (Some (snd r)) (nanmean (map Some (map snd ts))))
                          (nanstd (map Some (map snd ts)))) 3" if "r \<in> set ts" for r
    using that assms unfolding sd mn by simp
  then show ?thesis
    by (simp only: detect_anomalies_empty_iff) blast
qed

lemma all_less_10:
  "(\<forall>j<10. P (j::nat)) \<longleftrightarrow> P 0 \<and> P 1 \<and> P 2 \<and> P 3 \<and> P 4 \<and> P 5 \<and> P 6 \<and> P 7 \<and> P 8 \<and> P 9"
proof -
  have "{..<10::nat} = {0,1,2,3,4,5,6,7,8,9}" by auto
  then have "(\<forall>j<10. P j) = (\<forall>j \<in> {0,1,2,3,4,5,6,7,8,9}. P j)" by (metis lessThan_iff)
  then show ?thesis by simp
qed

lemma daily_ts_spike_rows:
  "daily_ts spike_rows =
     [(1, 100), (2, 100), (3, 100), (4, 100), (5, 100), (6, 100), (7, 100), (8, 100),
      (9, 100), (10, 10000)]"
  by (simp add: daily_ts_def spike_rows_def nansum_def present_def List.map_filter_simps)

section \<open>Facts about the feature builder\<close>

lemma contains_key_cols [simp]:
  "filter (contains ''sum'') (key_cols @ ns) = filter (contains ''sum'') ns"
  "filter (contains ''std'') (key_cols @ ns) = filter (contains ''std'') ns"
  by (simp_all add: key_cols_def)

lemma process_two_cols:
  fixes a b prefix :: string
  defines "as \<equiv> a @ ''_sum''" and "ad \<equiv> a @ ''_std''"
    and "bs \<equiv> b @ ''_sum''" and "bd \<equiv> b @ ''_std''"
    and "tv \<equiv> prefix @ ''_total_vol''" and "st \<equiv> prefix @ ''_stability''"
  assumes ne: "\<not> is_empty df"
    and xa: "map_of (data df) a = Some xs" and xb: "map_of (data df) b = Some ys"
    and fs: "filter (contains ''sum'') [as, ad, bs, bd] = [as, bs]"
    and fd: "filter (contains ''std'') [as, ad, bs, bd, tv] = [ad, bd]"
    and dist: "distinct [as, ad, bs, bd, tv, st]"
  shows "process_domain_features df prefix [a, b] =
     (let ks = index_keys df; gs = group_keys ks;
          S1 = map (\<lambda>g. Some (nansum (group_cells ks xs g))) gs;
          D1 = map (\<lambda>g. nanstd (group_cells ks xs g)) gs;
          S2 = map (\<lambda>g. Some (nansum (group_cells ks ys g))) gs;
          D2 = map (\<lambda>g. nanstd (group_cells ks ys g)) gs;
          TV = row_nansum (length gs) [S1, S2];
          TS = row_nansum (length gs) [D1, D2]
      in Inr \<lparr>index_keys = gs,
               data = [(as, S1), (ad, D1), (bs, S2), (bd, D2), (tv, map Some TV),
                       (st, map Some (map2 stability TV TS))]\<rparr>)"
proof -
  have neqs: "as \<noteq> ad" "as \<noteq> bs" "as \<noteq> bd" "as \<noteq> tv" "as \<noteq> st"
    "ad \<noteq> as" "ad \<noteq> bs" "ad \<noteq> bd" "ad \<noteq> tv" "ad \<noteq> st"
    "bs \<noteq> as" "bs \<noteq> ad" "bs \<noteq> bd" "bs \<noteq> tv" "bs \<noteq> st"
    "bd \<noteq> as" "bd \<noteq> ad" "bd \<noteq> bs" "bd \<noteq> tv" "bd \<noteq> st"
    "tv \<noteq> as" "tv \<noteq> ad" "tv \<noteq> bs" "tv \<noteq> bd" "tv \<noteq> st"
    "st \<noteq> as" "st \<noteq> ad" "st \<noteq> bs" "st \<noteq> bd" "st \<noteq> tv"
    using dist by auto
  show ?thesis
    using ne xa xb fs fd neqs
    unfolding process_domain_features_def
    by (simp add: key_cols_def column_def set_column_def Let_def as_def [symmetric] ad_def [symmetric]
      bs_def [symmetric] bd_def [symmetric] tv_def [symmetric] st_def [symmetric])
qed

lemma domain_call_names:
  assumes "(prefix, val_cols) \<in> set domain_calls"
  obtains a b where "val_cols = [a, b]"
    and "filter (contains ''sum'') [a @ ''_sum'', a @ ''_std'', b @ ''_sum'', b @ ''_std'']
           = [a @ ''_sum'', b @ ''_sum'']"
    and "filter (contains ''std'')
           [a @ ''_sum'', a @ ''_std'', b @ ''_sum'', b @ ''_std'', prefix @ ''_total_vol'']
           = [a @ ''_std'', b @ ''_std'']"
    and "distinct [a @ ''_sum'', a @ ''_std'', b @ ''_sum'', b @ ''_std'',
                   prefix @ ''_total_vol'', prefix @ ''_stability'']"
proof -
  consider "prefix = ''enrol''" "val_cols = [''enrol_child'', ''enrol_adult'']"
    | "prefix = ''bio''" "val_cols = [''bio_child'', ''bio_adult'']"
    | "prefix = ''demo''" "val_cols = [''demo_child'', ''demo_adult'']"
    using assms by (auto simp: domain_calls_def enrol_cols_def bio_cols_def demo_cols_def)
  then show thesis
  proof cases
    case 1
    show thesis by (rule that [of "''enrol_child''" "''enrol_adult''"]) (simp_all add: 1)
  next
    case 2
    show thesis by (rule that [of "''bio_child''" "''bio_adult''"]) (simp_all add: 2)
  next
    case 3
    show thesis by (rule that [of "''demo_child''" "''demo_adult''"]) (simp_all add: 3)
  qed
qed

lemma row_nansum_maps:
  "row_nansum (length gs) (map (\<lambda>f. map f gs) fs) = map (\<lambda>g. nansum (map (\<lambda>f. f g) fs)) gs"
  by (rule nth_equalityI) (simp_all add: row_nansum_def comp_def cong: map_cong)

lemma row_nansum_two:
  "row_nansum (length gs) [map f gs, map h gs] = map (\<lambda>g. nansum [f g, h g]) gs"
  using row_nansum_maps [of gs "[f, h]"] by simp

lemma nanstd_nonneg: "nanstd cs = Some s \<Longrightarrow> 0 \<le> s"
  by (auto simp: nanstd_def Let_def split: if_splits intro!: sum_list_nonneg divide_nonneg_nonneg)

lemma nansum_stds_nonneg: "0 \<le> nansum [nanstd xs, nanstd ys]"
proof -
  have "0 \<le> nansum [c]" if "\<And>s. c = Some s \<Longrightarrow> 0 \<le> s" for c
    using that by (cases c) (simp_all add: nansum_def present_def List.map_filter_simps)
  then have "0 \<le> nansum [nanstd xs]" "0 \<le> nansum [nanstd ys]"
    using nanstd_nonneg by blast+
  moreover have "nansum [nanstd xs, nanstd ys] = nansum [nanstd xs] + nansum [nanstd ys]"
    by (simp add: nansum_def present_def List.map_filter_simps split: option.splits)
  ultimately show ?thesis by simp
qed

lemma stability_range:
  assumes "0 \<le> ts"
  shows "(0 < tv \<longrightarrow> 0 < stability tv ts \<and> stability tv ts \<le> 10)
         \<and> (tv = 0 \<longrightarrow> stability tv ts = 0)"
proof (cases "0 < tv")
  case True
  then have q: "0 \<le> ts / (tv + 1)" using assms by simp
  then have d: "1 / 10 \<le> ts / (tv + 1) + 1 / 10" by simp
  then have "1 / (ts / (tv + 1) + 1 / 10) \<le> 1 / (1 / 10)"
    by (intro divide_left_mono) simp_all
  moreover have "0 < 1 / (ts / (tv + 1) + 1 / 10)" using q by simp
  ultimately show ?thesis using True by (simp add: stability_def)
next
  case False
  then show ?thesis by (simp add: stability_def)
qed

lemma select_two:
  "select df [a, b] = Inr xss \<Longrightarrow>
     \<exists>xs ys. xss = [xs, ys] \<and> map_of (data df) a = Some xs \<and> map_of (data df) b = Some ys"
  by (auto simp: column_def split: option.splits sum.splits)

lemma wdf_select: "select wdf enrol_cols = Inr [[Some 2], [Some 3]]"
  by (simp add: wdf_def enrol_cols_def column_def)

section \<open>Claims about the anomaly detector\<close>

text \<open>
  C5: a daily series with fewer than two distinct values (an empty series, a single day,
  or the same volume every day) makes the standard deviation NaN or 0; the division then
  yields NaN, raises nothing, and no day is flagged.
\<close>

theorem fraud_constant_series_no_anomaly:
  assumes "dfs \<noteq> []" and "card (snd ` set (daily_ts (concat dfs))) < 2"
  shows "analyze_fraud_spikes dfs = Some []"
proof -
  let ?ts = "daily_ts (concat dfs)"
  have "card (snd ` set ?ts) \<le> Suc 0" using assms(2) by linarith
  moreover have "finite (snd ` set ?ts)" by (intro finite_imageI finite_set)
  ultimately have eq: "\<And>a b. a \<in> snd ` set ?ts \<Longrightarrow> b \<in> snd ` set ?ts \<Longrightarrow> a = b"
    by (metis card_le_Suc0_iff_eq)
  have "detect_anomalies ?ts = []"
  proof (cases ?ts)
    case Nil
    then show ?thesis by (simp add: few_days_no_anomaly)
  next
    case (Cons r rs)
    have "snd q = snd r" if "q \<in> set ?ts" for q
    proof (rule eq)
      show "snd q \<in> snd ` set ?ts" using that by (rule imageI)
      show "snd r \<in> snd ` set ?ts" unfolding Cons by (rule imageI) simp
    qed
    then have "\<forall>q \<in> set ?ts. snd q = snd r" by blast
    then show ?thesis by (rule constant_no_anomaly)
  qed
  then show ?thesis using assms(1) by (simp add: analyze_fraud_spikes_def)
qed

theorem fraud_constant_series_no_anomaly_witness:
  "[[(Some 1, Some 5, Some 0), (Some 2, Some 2, Some 3), (None, Some 7, None)]] \<noteq> []
   \<and> card (snd ` set (daily_ts (concat
        [[(Some 1, Some 5, Some 0), (Some 2, Some 2, Some 3), (None, Some 7, None)]]))) < 2
   \<and> analyze_fraud_spikes
        [[(Some 1, Some 5, Some 0), (Some 2, Some 2, Some 3), (None, Some 7, None)]] = Some []"
proof -
  have ts: "daily_ts (concat
        [[(Some 1, Some 5, Some 0), (Some 2, Some 2, Some 3), (None, Some 7, None)]])
      = [(1, 5), (2, 5)]"
    by (simp add: daily_ts_def nansum_def present_def List.map_filter_simps)
  have c: "card (snd ` set (daily_ts (concat
        [[(Some 1, Some 5, Some 0), (Some 2, Some 2, Some 3), (None, Some 7, None)]]))) < 2"
    unfolding ts by simp
  have ne: "[[(Some 1, Some 5, Some 0), (Some 2, Some 2, Some 3), (None::date option, Some 7, None)]] \<noteq> ([]::raw_demo list list)"
    by simp
  from ne c fraud_constant_series_no_anomaly [OF ne c] show ?thesis by blast
qed

text \<open>
  C7 (as amended): in a ten-day series with nine values in [90, 110] and one value of
  10,000 no day is flagged. With ten observations no z-score computed from the sample
  standard deviation can exceed 9 / sqrt 10 (about 2.85), so the threshold 3 is never
  passed.
\<close>

theorem ten_day_spike_not_flagged:
  assumes "length ts = 10" and "i < 10" and "snd (ts ! i) = 10000"
    and "\<forall>j < 10. j \<noteq> i \<longrightarrow> 90 \<le> snd (ts ! j) \<and> snd (ts ! j) \<le> 110"
  shows "detect_anomalies ts = []"
  using assms(1) by (simp add: few_days_no_anomaly)

theorem ten_day_spike_not_flagged_witness:
  "detect_anomalies
     [(1, 100), (2, 90), (3, 110), (4, 10000), (5, 95), (6, 100), (7, 100), (8, 100),
      (9, 105), (10, 100)] = []"
  by (rule ten_day_spike_not_flagged [where i = 3]) (simp_all add: nth_Cons' all_less_10)

text \<open>
  The claim as the spec states it fails on the series \<open>spike_rows\<close>: the day at 10,000
  has z-score 8910 / sqrt 9801000, below 3, and is not flagged.
\<close>

theorem ten_day_spike_counterexample:
  "daily_ts (concat [spike_rows]) =
     [(1, 100), (2, 100), (3, 100), (4, 100), (5, 100), (6, 100), (7, 100), (8, 100),
      (9, 100), (10, 10000)]
   \<and> analyze_fraud_spikes [spike_rows] = Some []"
  by (simp add: analyze_fraud_spikes_def daily_ts_spike_rows few_days_no_anomaly)

section \<open>Claims about the pincode feature builder\<close>

text \<open>
  C8: for each of the three calls of the pipeline and every non-empty cleaned table that
  has the value columns, the builder succeeds and its \<open>{domain}_total_vol\<close> column is,
  row by row, the sum of the \<open>{c}_sum\<close> columns of the value columns \<open>c\<close> (which hold
  no missing value).
\<close>

theorem total_vol_is_sum_of_sums:
  assumes call: "(prefix, val_cols) \<in> set domain_calls"
    and ne: "\<not> is_empty df"
    and sel: "select df val_cols = Inr xss"
  shows "\<exists>stats sum_vals.
           process_domain_features df prefix val_cols = Inr stats
           \<and> select stats (map (\<lambda>c. c @ ''_sum'') val_cols) = Inr sum_vals
           \<and> (\<forall>xs \<in> set sum_vals. length xs = length (index_keys stats) \<and> None \<notin> set xs)
           \<and> column stats (prefix @ ''_total_vol'')
               = Inr (map Some (row_nansum (length (index_keys stats)) sum_vals))"
proof -
  from call obtain a b where vc: "val_cols = [a, b]"
    and fs: "filter (contains ''sum'') [a @ ''_sum'', a @ ''_std'', b @ ''_sum'', b @ ''_std'']
           = [a @ ''_sum'', b @ ''_sum'']"
    and fd: "filter (contains ''std'')
           [a @ ''_sum'', a @ ''_std'', b @ ''_sum'', b @ ''_std'', prefix @ ''_total_vol'']
           = [a @ ''_std'', b @ ''_std'']"
    and dist: "distinct [a @ ''_sum'', a @ ''_std'', b @ ''_sum'', b @ ''_std'',
                   prefix @ ''_total_vol'', prefix @ ''_stability'']"
    by (rule domain_call_names)
  from sel vc obtain xs ys where xa: "map_of (data df) a = Some xs"
    and xb: "map_of (data df) b = Some ys"
    using select_two by blast
  have neqs: "a @ ''_sum'' \<noteq> b @ ''_sum''" "a @ ''_std'' \<noteq> b @ ''_sum''"
    "prefix @ ''_total_vol'' \<noteq> a @ ''_sum''" "prefix @ ''_total_vol'' \<noteq> a @ ''_std''"
    "prefix @ ''_total_vol'' \<noteq> b @ ''_sum''" "prefix @ ''_total_vol'' \<noteq> b @ ''_std''"
    "a @ ''_sum'' \<noteq> a @ ''_std''"
    using dist by auto
  show ?thesis
    unfolding vc process_two_cols [OF ne xa xb fs fd dist]
    using neqs by (auto simp: Let_def column_def)
qed

theorem total_vol_is_sum_of_sums_witness:
  "(''enrol'', enrol_cols) \<in> set domain_calls \<and> \<not> is_empty wdf
   \<and> select wdf enrol_cols = Inr [[Some 2], [Some 3]]
   \<and> (\<exists>stats sum_vals.
           process_domain_features wdf ''enrol'' enrol_cols = Inr stats
           \<and> select stats (map (\<lambda>c. c @ ''_sum'') enrol_cols) = Inr sum_vals
           \<and> (\<forall>xs \<in> set sum_vals. length xs = length (index_keys stats) \<and> None \<notin> set xs)
           \<and> column stats (''enrol'' @ ''_total_vol'')
               = Inr (map Some (row_nansum (length (index_keys stats)) sum_vals)))"
proof -
  have c: "(''enrol'', enrol_cols) \<in> set domain_calls" by (simp add: domain_calls_def)
  have n: "\<not> is_empty wdf" by (simp add: is_empty_def wdf_def)
  from c n wdf_select total_vol_is_sum_of_sums [OF c n wdf_select] show ?thesis by blast
qed

text \<open>
  C2: for each of the three calls and every non-empty cleaned table that has the value
  columns, \<open>{domain}_stability\<close> is a present value in every row (also where a group has a
  single observation and its standard deviation is NaN), lies in (0, 10] where
  \<open>{domain}_total_vol\<close> is positive and is 0 where \<open>{domain}_total_vol\<close> is 0.
\<close>

theorem stability_in_range:
  assumes call: "(prefix, val_cols) \<in> set domain_calls"
    and ne: "\<not> is_empty df"
    and sel: "select df val_cols = Inr xss"
  shows "\<exists>stats tv st.
           process_domain_features df prefix val_cols = Inr stats
           \<and> column stats (prefix @ ''_total_vol'') = Inr (map Some tv)
           \<and> column stats (prefix @ ''_stability'') = Inr (map Some st)
           \<and> length tv = length (index_keys stats)
           \<and> list_all2 (\<lambda>t s. (0 < t \<longrightarrow> 0 < s \<and> s \<le> 10) \<and> (t = 0 \<longrightarrow> s = 0)) tv st"
proof -
  from call obtain a b where vc: "val_cols = [a, b]"
    and fs: "filter (contains ''sum'') [a @ ''_sum'', a @ ''_std'', b @ ''_sum'', b @ ''_std'']
           = [a @ ''_sum'', b @ ''_sum'']"
    and fd: "filter (contains ''std'')
           [a @ ''_sum'', a @ ''_std'', b @ ''_sum'', b @ ''_std'', prefix @ ''_total_vol'']
           = [a @ ''_std'', b @ ''_std'']"
    and dist: "distinct [a @ ''_sum'', a @ ''_std'', b @ ''_sum'', b @ ''_std'',
                   prefix @ ''_total_vol'', prefix @ ''_stability'']"
    by (rule domain_call_names)
  from sel vc obtain xs ys where xa: "map_of (data df) a = Some xs"
    and xb: "map_of (data df) b = Some ys"
    using select_two by blast
  have neqs: "prefix @ ''_total_vol'' \<noteq> a @ ''_sum''" "prefix @ ''_total_vol'' \<noteq> a @ ''_std''"
    "prefix @ ''_total_vol'' \<noteq> b @ ''_sum''" "prefix @ ''_total_vol'' \<noteq> b @ ''_std''"
    "prefix @ ''_stability'' \<noteq> a @ ''_sum''" "prefix @ ''_stability'' \<noteq> a @ ''_std''"
    "prefix @ ''_stability'' \<noteq> b @ ''_sum''" "prefix @ ''_stability'' \<noteq> b @ ''_std''"
    "prefix @ ''_stability'' \<noteq> prefix @ ''_total_vol''"
    using dist by auto
  let ?ks = "index_keys df"
  let ?gs = "group_keys ?ks"
  let ?tv = "\<lambda>g. nansum [Some (nansum (group_cells ?ks xs g)), Some (nansum (group_cells ?ks ys g))]"
  let ?ts = "\<lambda>g. nansum [nanstd (group_cells ?ks xs g), nanstd (group_cells ?ks ys g)]"
  have rng: "list_all2 (\<lambda>t s. (0 < t \<longrightarrow> 0 < s \<and> s \<le> 10) \<and> (t = 0 \<longrightarrow> s = 0))
               (map ?tv ?gs) (map2 stability (map ?tv ?gs) (map ?ts ?gs))"
    using stability_range [OF nansum_stds_nonneg]
    by (simp add: list_all2_conv_all_nth)
  define stats :: "pkey frame" where "stats =
     \<lparr>index_keys = ?gs,
        data = [(a @ ''_sum'', map (\<lambda>g. Some (nansum (group_cells ?ks xs g))) ?gs),
                (a @ ''_std'', map (\<lambda>g. nanstd (group_cells ?ks xs g)) ?gs),
                (b @ ''_sum'', map (\<lambda>g. Some (nansum (group_cells ?ks ys g))) ?gs),
                (b @ ''_std'', map (\<lambda>g. nanstd (group_cells ?ks ys g)) ?gs),
                (prefix @ ''_total_vol'', map Some (map ?tv ?gs)),
                (prefix @ ''_stability'',
                 map Some (map2 stability (map ?tv ?gs) (map ?ts ?gs)))]\<rparr>"
  have p: "process_domain_features df prefix val_cols = Inr stats"
    unfolding vc process_two_cols [OF ne xa xb fs fd dist] Let_def row_nansum_two stats_def
    by (rule refl)
  have c1: "column stats (prefix @ ''_total_vol'') = Inr (map Some (map ?tv ?gs))"
    by (simp add: stats_def column_def neqs)
  have c2: "column stats (prefix @ ''_stability'')
              = Inr (map Some (map2 stability (map ?tv ?gs) (map ?ts ?gs)))"
    by (simp add: stats_def column_def neqs)
  have l: "length (map ?tv ?gs) = length (index_keys stats)"
    by (simp add: stats_def)
  from p c1 c2 l rng show ?thesis by blast
qed

theorem stability_in_range_witness:
  "(''enrol'', enrol_cols) \<in> set domain_calls \<and> \<not> is_empty wdf
   \<and> select wdf enrol_cols = Inr [[Some 2], [Some 3]]
   \<and> (\<exists>stats tv st.
           process_domain_features wdf ''enrol'' enrol_cols = Inr stats
           \<and> column stats (''enrol'' @ ''_total_vol'') = Inr (map Some tv)
           \<and> column stats (''enrol'' @ ''_stability'') = Inr (map Some st)
           \<and> length tv = length (index_keys stats)
           \<and> list_all2 (\<lambda>t s. (0 < t \<longrightarrow> 0 < s \<and> s \<le> 10) \<and> (t = 0 \<longrightarrow> s = 0)) tv st)"
proof -
  have c: "(''enrol'', enrol_cols) \<in> set domain_calls" by (simp add: domain_calls_def)
  have n: "\<not> is_empty wdf" by (simp add: is_empty_def wdf_def)
  from c n wdf_select stability_in_range [OF c n wdf_select] show ?thesis by blast
qed

end
